theory Spec2Isabelle
  imports Complex_Main "HOL-Library.Char_ord" "HOL-Library.List_Lexorder"
    "HOL-Library.Product_Lexorder" "HOL-Library.Log_Nat"
begin

section \<open>Colour extraction and palette generation (theme\_maker/palette.py)\<close>

text \<open>
  The module works on Python \<open>float\<close>s, \<open>int\<close>s and \<open>str\<close>s. A Python float is an
  IEEE-754 double: it is a \<^typ>\<open>real\<close> here, and every arithmetic operation of the colour
  functions is the exact operation followed by \<open>rnd\<close>, the rounding to the nearest
  double with ties to even (53 bits of precision, gradual underflow below \<open>2^-1022\<close>).
  Results beyond the largest double, which Python turns into \<open>inf\<close> or an
  \<open>OverflowError\<close>, and \<open>nan\<close> are outside the model. The arguments of a function
  that takes floats stand for doubles. Only the arithmetic of the k-means loop (means,
  squared distances, \<open>np.allclose\<close>) is kept in exact reals; the properties shown of it
  are about the order and the length of its result.

  Python's unbounded \<open>int\<close> is \<^typ>\<open>int\<close>, a \<open>str\<close> is a \<^typ>\<open>string\<close> compared by code
  point (the order of \<open>Char_ord\<close> and \<open>List_Lexorder\<close>), and a tuple is compared
  lexicographically (\<open>Product_Lexorder\<close>). A raised exception is the value \<^term>\<open>None\<close>.
\<close>

subsection \<open>Python primitives\<close>

text \<open>\<open>int(x)\<close> on a float truncates toward zero.\<close>

definition pyint :: "real \<Rightarrow> int" where
  "pyint x = (if 0 \<le> x then \<lfloor>x\<rfloor> else \<lceil>x\<rceil>)"

text \<open>
  Rounding to the nearest double. \<open>pow2 e\<close> is \<open>2^e\<close> for an integer \<open>e\<close>; \<open>expo x\<close> is
  the binary exponent of \<open>x \<noteq> 0\<close>, with \<open>2^(expo x) \<le> \<bar>x\<bar> < 2^(expo x + 1)\<close>;
  \<open>round_even\<close> rounds to the nearest integer, a tie to the even one. A double with
  exponent \<open>e\<close> is a multiple of \<open>2^(e - 52)\<close>, and of \<open>2^-1074\<close> in the subnormal
  range.
\<close>

definition pow2 :: "int \<Rightarrow> real" where
  "pow2 e = (if 0 \<le> e then 2 ^ nat e else 1 / 2 ^ nat (- e))"

definition expo :: "real \<Rightarrow> int" where
  "expo x =
     (let a = \<bar>x\<bar>
      in if 1 \<le> a then bitlen \<lfloor>a\<rfloor> - 1 else - bitlen (\<lceil>1 / a\<rceil> - 1))"

definition round_even :: "real \<Rightarrow> int" where
  "round_even y =
     (let f = \<lfloor>y\<rfloor>; d = y - of_int f
      in if d < 1 / 2 then f
         else if 1 / 2 < d then f + 1
         else if even f then f else f + 1)"

definition rnd :: "real \<Rightarrow> real" where
  "rnd x =
     (if x = 0 then 0
      else let u = pow2 (max (expo x) (- 1022) - 52)
           in of_int (round_even (x / u)) * u)"

text \<open>The four operations on doubles, and a decimal literal \<open>c\<close> as \<open>rnd c\<close>.\<close>

definition fadd :: "real \<Rightarrow> real \<Rightarrow> real" where
  "fadd a b = rnd (a + b)"

definition fsub :: "real \<Rightarrow> real \<Rightarrow> real" where
  "fsub a b = rnd (a - b)"

definition fmul :: "real \<Rightarrow> real \<Rightarrow> real" where
  "fmul a b = rnd (a * b)"

definition fdiv :: "real \<Rightarrow> real \<Rightarrow> real" where
  "fdiv a b = rnd (a / b)"

text \<open>
  \<open>x % m\<close> on floats, for a positive \<open>m\<close> (CPython's \<open>float_rem\<close>): the remainder of C's
  \<open>fmod\<close>, which is exact and has the sign of \<open>x\<close>, and \<open>m\<close> added to it, with
  rounding, when it is negative. So \<open>x % 1.0\<close> lies in \<open>[0, 1]\<close> and is 1.0 for a tiny
  negative \<open>x\<close>.
\<close>

definition fmod :: "real \<Rightarrow> real \<Rightarrow> real" where
  "fmod x m =
     (let r = x - m * of_int (pyint (x / m))
      in if r < 0 then rnd (r + m) else r)"

text \<open>
  The value of one hexadecimal digit, and \<open>int(s, 16)\<close> for a string \<open>s\<close> made of
  hexadecimal digits only. Python raises \<open>ValueError\<close> on the empty string and on any
  other character; the signed and blank-padded forms and the non-ASCII digits that \<open>int\<close>
  also accepts are not part of the model and count as errors here.
\<close>

definition hexval :: "char \<Rightarrow> nat option" where
  "hexval c =
     (let n = (of_char c :: nat) in
      if 48 \<le> n \<and> n \<le> 57 then Some (n - 48)
      else if 97 \<le> n \<and> n \<le> 102 then Some (n - 87)
      else if 65 \<le> n \<and> n \<le> 70 then Some (n - 55)
      else None)"

fun int16_from :: "nat \<Rightarrow> string \<Rightarrow> nat option" where
  "int16_from acc [] = Some acc"
| "int16_from acc (c # cs) =
     (case hexval c of None \<Rightarrow> None | Some d \<Rightarrow> int16_from (16 * acc + d) cs)"

definition int16 :: "string \<Rightarrow> int option" where
  "int16 s = (if s = [] then None else map_option int (int16_from 0 s))"

text \<open>
  The format \<open>:02x\<close> applied to an integer between 0 and 255 (its only use, after the
  clamp of \<open>rgb_to_hex\<close>): two lowercase hexadecimal digits.
\<close>

definition hexdigit :: "nat \<Rightarrow> char" where
  "hexdigit d = ''0123456789abcdef'' ! d"

definition fmt02x :: "int \<Rightarrow> string" where
  "fmt02x n = [hexdigit (nat n div 16), hexdigit (nat n mod 16)]"

text \<open>
  \<open>list.sort(reverse=True)\<close>: a stable sort into descending order. Each element is put
  in front of the first element that is not greater than it, so equal elements keep
  their input order.
\<close>

fun insort_desc :: "'a::linorder \<Rightarrow> 'a list \<Rightarrow> 'a list" where
  "insort_desc x [] = [x]"
| "insort_desc x (y # ys) = (if x < y then y # insort_desc x ys else x # y # ys)"

definition sort_reverse :: "'a::linorder list \<Rightarrow> 'a list" where
  "sort_reverse xs = foldr insort_desc xs []"

subsection \<open>The standard library's colorsys (HLS conversions)\<close>

text \<open>
  \<open>colorsys.rgb_to_hls\<close>, \<open>colorsys.hls_to_rgb\<close> and its helper \<open>_v\<close>, from CPython's
  \<open>Lib/colorsys.py\<close>, operation by operation in double arithmetic. The constants are
  \<open>ONE_THIRD = 1.0/3.0\<close>, \<open>ONE_SIXTH = 1.0/6.0\<close> and \<open>TWO_THIRD = 2.0/3.0\<close>. A division
  by zero raises \<open>ZeroDivisionError\<close>.
\<close>

definition ONE_THIRD :: real where
  "ONE_THIRD = fdiv 1 3"

definition ONE_SIXTH :: real where
  "ONE_SIXTH = fdiv 1 6"

definition TWO_THIRD :: real where
  "TWO_THIRD = fdiv 2 3"

definition rgb_to_hls :: "real \<Rightarrow> real \<Rightarrow> real \<Rightarrow> (real \<times> real \<times> real) option" where
  "rgb_to_hls r g b =
     (let maxc = max (max r g) b;
          minc = min (min r g) b;
          sumc = fadd maxc minc;
          rangec = fsub maxc minc;
          l = fdiv sumc 2
      in if minc = maxc then Some (0, l, 0)
         else
           let den = (if l \<le> 1 / 2 then sumc else fsub (fsub 2 maxc) minc)
           in if den = 0 \<or> rangec = 0 then None
              else
                let s = fdiv rangec den;
                    rc = fdiv (fsub maxc r) rangec;
                    gc = fdiv (fsub maxc g) rangec;
                    bc = fdiv (fsub maxc b) rangec;
                    h = (if r = maxc then fsub bc gc
                         else if g = maxc then fsub (fadd 2 rc) bc
                         else fsub (fadd 4 gc) rc)
                in Some (fmod (fdiv h 6) 1, l, s))"

definition v_hls :: "real \<Rightarrow> real \<Rightarrow> real \<Rightarrow> real" where
  "v_hls m1 m2 hue0 =
     (let hue = fmod hue0 1
      in if hue < ONE_SIXTH then fadd m1 (fmul (fmul (fsub m2 m1) hue) 6)
         else if hue < 1 / 2 then m2
         else if hue < TWO_THIRD then fadd m1 (fmul (fmul (fsub m2 m1) (fsub TWO_THIRD hue)) 6)
         else m1)"

definition hls_to_rgb :: "real \<Rightarrow> real \<Rightarrow> real \<Rightarrow> real \<times> real \<times> real" where
  "hls_to_rgb h l s =
     (if s = 0 then (l, l, l)
      else
        let m2 = (if l \<le> 1 / 2 then fmul l (fadd 1 s) else fsub (fadd l s) (fmul l s));
            m1 = fsub (fmul 2 l) m2
        in (v_hls m1 m2 (fadd h ONE_THIRD), v_hls m1 m2 h, v_hls m1 m2 (fsub h ONE_THIRD)))"

subsection \<open>Colour conversions\<close>

definition hex_to_rgb :: "string \<Rightarrow> (int \<times> int \<times> int) option" where
  "hex_to_rgb h0 =
     (let h = dropWhile (\<lambda>c. c = CHR ''#'') h0
      in case int16 (take 2 h) of None \<Rightarrow> None
         | Some r \<Rightarrow>
            (case int16 (take 2 (drop 2 h)) of None \<Rightarrow> None
             | Some g \<Rightarrow>
                (case int16 (take 2 (drop 4 h)) of None \<Rightarrow> None
                 | Some b \<Rightarrow> Some (r, g, b))))"

definition clamp255 :: "int \<Rightarrow> int" where
  "clamp255 n = max 0 (min 255 n)"

definition rgb_to_hex :: "real \<Rightarrow> real \<Rightarrow> real \<Rightarrow> string" where
  "rgb_to_hex r g b =
     CHR ''#'' # fmt02x (clamp255 (pyint r)) @ fmt02x (clamp255 (pyint g))
       @ fmt02x (clamp255 (pyint b))"

definition rgb_to_hsl :: "int \<Rightarrow> int \<Rightarrow> int \<Rightarrow> (real \<times> real \<times> real) option" where
  "rgb_to_hsl r g b =
     (case rgb_to_hls (fdiv (of_int r) 255) (fdiv (of_int g) 255) (fdiv (of_int b) 255) of
        None \<Rightarrow> None
      | Some (h, l, s) \<Rightarrow> Some (fmul h 360, fmul s 100, fmul l 100))"

definition hsl_to_rgb :: "real \<Rightarrow> real \<Rightarrow> real \<Rightarrow> int \<times> int \<times> int" where
  "hsl_to_rgb h s l =
     (case hls_to_rgb (fdiv h 360) (fdiv l 100) (fdiv s 100) of
        (r, g, b) \<Rightarrow> (pyint (fmul r 255), pyint (fmul g 255), pyint (fmul b 255)))"

definition hsl_to_hex :: "real \<Rightarrow> real \<Rightarrow> real \<Rightarrow> string" where
  "hsl_to_hex h s l =
     (case hsl_to_rgb h s l of (r, g, b) \<Rightarrow> rgb_to_hex (of_int r) (of_int g) (of_int b))"

definition hex_to_hsl :: "string \<Rightarrow> (real \<times> real \<times> real) option" where
  "hex_to_hsl hexc =
     (case hex_to_rgb hexc of None \<Rightarrow> None | Some (r, g, b) \<Rightarrow> rgb_to_hsl r g b)"

definition lighten :: "string \<Rightarrow> real \<Rightarrow> string option" where
  "lighten hexc amount =
     (case hex_to_hsl hexc of None \<Rightarrow> None
      | Some (h, s, l) \<Rightarrow> Some (hsl_to_hex h s (min 100 (fadd l amount))))"

subsection \<open>Dominant colours by k-means\<close>

text \<open>
  The pixel sample is a numpy array of shape \<open>(n, 3)\<close>: a list of integer triples.
  Centroids are float triples. The numpy operations are modelled by what they compute:
  \<open>astype(float)\<close> and \<open>astype(int)\<close> (truncation toward zero), \<open>np.sum\<close>, \<open>mean\<close>,
  \<open>np.argmin\<close> (the first index of a minimum), \<open>np.allclose\<close> (with its default
  relative tolerance \<open>1e-05\<close>) and \<open>np.linspace(0, n - 1, k, dtype=int)\<close> (the \<open>k\<close>
  evenly spaced values from 0 to \<open>n - 1\<close>, the last one set to \<open>n - 1\<close>, floored).
  \<open>argmin\<close> is only applied to the distances to \<open>k\<close> centroids with \<open>k\<close> at least 1
  (for \<open>k = 0\<close> \<open>kmeans_colors\<close> raises), and the indices of \<open>linspace_int\<close> lie
  below \<open>n\<close> (lemma \<open>linspace_int_bound\<close>), so that no list is read out of range.
\<close>

type_synonym pixel = "int \<times> int \<times> int"
type_synonym centroid = "real \<times> real \<times> real"

definition astype_float :: "pixel \<Rightarrow> centroid" where
  "astype_float p = (case p of (r, g, b) \<Rightarrow> (of_int r, of_int g, of_int b))"

definition astype_int :: "centroid \<Rightarrow> pixel" where
  "astype_int c = (case c of (r, g, b) \<Rightarrow> (pyint r, pyint g, pyint b))"

definition sqdist :: "pixel \<Rightarrow> centroid \<Rightarrow> real" where
  "sqdist p c =
     (case astype_float p of (r, g, b) \<Rightarrow>
        (case c of (cr, cg, cb) \<Rightarrow> (r - cr)\<^sup>2 + (g - cg)\<^sup>2 + (b - cb)\<^sup>2))"

definition linspace_int :: "nat \<Rightarrow> nat \<Rightarrow> nat list" where
  "linspace_int n k =
     (if k = 1 then [0]
      else map (\<lambda>i. if i = k - 1 then n - 1
                     else nat \<lfloor>real i * (real (n - 1) / real (k - 1))\<rfloor>) [0..<k])"

fun argmin :: "real list \<Rightarrow> nat" where
  "argmin [] = 0"
| "argmin [x] = 0"
| "argmin (x # y # ys) = (let j = argmin (y # ys) in if x \<le> (y # ys) ! j then 0 else Suc j)"

definition assign_labels :: "pixel list \<Rightarrow> centroid list \<Rightarrow> nat list" where
  "assign_labels pixels centroids = map (\<lambda>p. argmin (map (sqdist p) centroids)) pixels"

definition mean_pixels :: "pixel list \<Rightarrow> centroid" where
  "mean_pixels ps =
     (let n = real (length ps)
      in (of_int (sum_list (map fst ps)) / n,
          of_int (sum_list (map (fst \<circ> snd) ps)) / n,
          of_int (sum_list (map (snd \<circ> snd) ps)) / n))"

definition members :: "pixel list \<Rightarrow> nat list \<Rightarrow> nat \<Rightarrow> pixel list" where
  "members pixels labels j = map fst (filter (\<lambda>pl. snd pl = j) (zip pixels labels))"

definition recompute :: "pixel list \<Rightarrow> nat \<Rightarrow> centroid list \<Rightarrow> centroid list" where
  "recompute pixels k centroids =
     (let labels = assign_labels pixels centroids
      in map (\<lambda>j. if members pixels labels j \<noteq> [] then mean_pixels (members pixels labels j)
                   else centroids ! j) [0..<k])"

definition isclose :: "real \<Rightarrow> real \<Rightarrow> bool" where
  "isclose a b \<longleftrightarrow> \<bar>a - b\<bar> \<le> 1 + (1 / 100000) * \<bar>b\<bar>"

definition allclose :: "centroid list \<Rightarrow> centroid list \<Rightarrow> bool" where
  "allclose cs ds \<longleftrightarrow>
     list_all2 (\<lambda>c d. case c of (c1, c2, c3) \<Rightarrow> (case d of (d1, d2, d3) \<Rightarrow>
        isclose c1 d1 \<and> isclose c2 d2 \<and> isclose c3 d3)) cs ds"

text \<open>
  The loop \<open>for _ in range(max_iter)\<close>: on \<open>break\<close> the centroids of the previous round
  are kept, not the recomputed ones.
\<close>

fun kmeans_iter :: "nat \<Rightarrow> pixel list \<Rightarrow> nat \<Rightarrow> centroid list \<Rightarrow> centroid list" where
  "kmeans_iter 0 pixels k centroids = centroids"
| "kmeans_iter (Suc it) pixels k centroids =
     (let new_centroids = recompute pixels k centroids
      in if allclose centroids new_centroids then centroids
         else kmeans_iter it pixels k new_centroids)"

definition init_centroids :: "pixel list \<Rightarrow> nat \<Rightarrow> centroid list" where
  "init_centroids pixels k =
     map (\<lambda>i. astype_float (pixels ! i)) (linspace_int (length pixels) k)"

definition final_centroids :: "pixel list \<Rightarrow> nat \<Rightarrow> nat \<Rightarrow> centroid list" where
  "final_centroids pixels k max_iter = kmeans_iter max_iter pixels k (init_centroids pixels k)"

definition cluster_counts :: "pixel list \<Rightarrow> nat \<Rightarrow> centroid list \<Rightarrow> (nat \<times> nat) list" where
  "cluster_counts pixels k centroids =
     (let labels = assign_labels pixels centroids
      in map (\<lambda>j. (length (filter (\<lambda>lab. lab = j) labels), j)) [0..<k])"

text \<open>
  \<open>kmeans_colors(pixels, k, max_iter)\<close>. For \<open>k < 0\<close> \<open>np.linspace\<close> raises, and for
  \<open>k = 0\<close> \<open>np.argmin\<close> raises on the empty distance array; a negative \<open>max_iter\<close> gives
  an empty \<open>range\<close>.
\<close>

definition kmeans_colors :: "pixel list \<Rightarrow> int \<Rightarrow> int \<Rightarrow> pixel list option" where
  "kmeans_colors pixels k max_iter =
     (if length pixels = 0 then Some []
      else if k \<le> 0 then None
      else
        let centroids = final_centroids pixels (nat k) (nat max_iter);
            counts = sort_reverse (cluster_counts pixels (nat k) centroids)
        in Some (map (\<lambda>cj. astype_int (centroids ! snd cj)) counts))"

text \<open>
  \<open>extract_colors\<close> after the image has been decoded and resized: \<open>pixels\<close> is the
  flattened 200 x 200 RGB array (channels 0..255, summed without overflow), and
  \<open>shuffle\<close> stands for \<open>np.random.shuffle\<close> under the fixed seed.
  \<open>extract_colors_sample\<close> is the filter of lines 122 to 124.
\<close>

definition brightness :: "pixel \<Rightarrow> int" where
  "brightness p = (case p of (r, g, b) \<Rightarrow> r + g + b)"

definition extract_colors_sample :: "pixel list \<Rightarrow> pixel list" where
  "extract_colors_sample pixels =
     (let filtered = filter (\<lambda>p. brightness p > 60 \<and> brightness p < 700) pixels
      in if length filtered > 1000 then filtered else pixels)"

definition extract_colors ::
  "(pixel list \<Rightarrow> pixel list) \<Rightarrow> pixel list \<Rightarrow> int \<Rightarrow> string list option" where
  "extract_colors shuffle pixels num_colors =
     (case kmeans_colors (shuffle (extract_colors_sample pixels)) num_colors 20 of
        None \<Rightarrow> None
      | Some centroids \<Rightarrow>
          Some (map (\<lambda>c. case c of (r, g, b) \<Rightarrow> rgb_to_hex (of_int r) (of_int g) (of_int b))
                  centroids))"

subsection \<open>Accent selection\<close>

definition score_accent :: "string \<Rightarrow> real option" where
  "score_accent hexc =
     (case hex_to_hsl hexc of None \<Rightarrow> None
      | Some (h, s, l) \<Rightarrow>
          let sat_score = fdiv s 100;
              light_score = (if l < 15 \<or> l > 85 then rnd 0.1
                             else if 25 \<le> l \<and> l \<le> 60 then 1
                             else 0.5);
              grey_penalty = (if s > 20 then 1 else rnd 0.1)
          in Some (fmul (fmul sat_score light_score) grey_penalty))"

text \<open>The list comprehension \<open>[(score_accent(c), c) for c in colors]\<close>.\<close>

fun score_all :: "string list \<Rightarrow> (real \<times> string) list option" where
  "score_all [] = Some []"
| "score_all (c # cs) =
     (case score_accent c of None \<Rightarrow> None
      | Some sc \<Rightarrow> (case score_all cs of None \<Rightarrow> None | Some rest \<Rightarrow> Some ((sc, c) # rest)))"

definition pick_accent :: "string list \<Rightarrow> string option" where
  "pick_accent colors =
     (if colors = [] then Some ''#c41e3a''
      else case score_all colors of None \<Rightarrow> None
           | Some scored \<Rightarrow>
               (case sort_reverse scored of [] \<Rightarrow> None | best # _ \<Rightarrow> Some (snd best)))"

subsection \<open>GNOME accent name\<close>

text \<open>
  \<open>gnome_accent_of\<close> is the body of \<open>get_gnome_accent_name\<close> after the conversion to
  HSL (lines 282 to 298), as a function of hue and saturation.
\<close>

definition gnome_accent_of :: "real \<Rightarrow> real \<Rightarrow> string" where
  "gnome_accent_of h s =
     (if s < 15 then ''slate''
      else if h < 15 \<or> h \<ge> 345 then ''red''
      else if 15 \<le> h \<and> h < 40 then ''orange''
      else if 40 \<le> h \<and> h < 70 then ''yellow''
      else if 70 \<le> h \<and> h < 160 then ''green''
      else if 160 \<le> h \<and> h < 195 then ''teal''
      else if 195 \<le> h \<and> h < 260 then ''blue''
      else if 260 \<le> h \<and> h < 300 then ''purple''
      else ''pink'')"

definition get_gnome_accent_name :: "string \<Rightarrow> string option" where
  "get_gnome_accent_name accent_hex =
     (case hex_to_hsl accent_hex of None \<Rightarrow> None
      | Some (h, s, l) \<Rightarrow> Some (gnome_accent_of h s))"

subsection \<open>Palette generation\<close>

text \<open>
  Lines 169 to 174 of \<open>generate_palette\<close>: the three assignments that make the accent
  saturated and visible, in the order of the source.
\<close>

definition normalize_accent :: "real \<times> real \<times> real \<Rightarrow> real \<times> real \<times> real" where
  "normalize_accent hsl =
     (case hsl of (ah, s0, l0) \<Rightarrow>
        let a_s = (if s0 < 40 then 60 else s0);
            l1 = (if l0 < 25 then 40 else l0);
            al = (if l1 > 65 then 50 else l1)
        in (ah, a_s, al))"

text \<open>
  The returned \<open>dict\<close> is an association list in the order of the source. The five
  calls of \<open>lighten\<close> parse a colour again and are the only places after the first line
  that could raise.
\<close>

definition generate_palette :: "string \<Rightarrow> string \<Rightarrow> (string \<times> string) list option" where
  "generate_palette accent_hex wallpaper_path =
     (case hex_to_hsl accent_hex of None \<Rightarrow> None
      | Some hsl \<Rightarrow>
         (case normalize_accent hsl of (ah, a_s, al) \<Rightarrow>
            let accent = hsl_to_hex ah a_s al;
                bg_deepest = hsl_to_hex ah (max 3 (fmul a_s (rnd 0.05))) 3;
                bg_main = hsl_to_hex ah (max 5 (fmul a_s (rnd 0.08))) 5.5;
                bg_surface = hsl_to_hex ah (max 8 (fmul a_s (rnd 0.12))) 8.5;
                bg_elevated = hsl_to_hex ah (max 12 (fmul a_s (rnd 0.15))) 12;
                border = hsl_to_hex ah (max 15 (fmul a_s (rnd 0.2))) 17;
                border_bright = hsl_to_hex ah (max 15 (fmul a_s (rnd 0.2))) 22;
                accent_hover = hsl_to_hex ah (min 100 (fadd a_s 5)) (min 65 (fadd al 8));
                accent_light = hsl_to_hex ah (min 100 (fadd a_s 10)) (min 70 (fadd al 12));
                accent_soft = hsl_to_hex (fmod (fadd ah 15) 360) (max 30 (fmul a_s (rnd 0.6))) al;
                accent_rose = hsl_to_hex ah (max 40 (fmul a_s (rnd 0.7))) (min 75 (fadd al 20));
                text = hsl_to_hex ah (max 3 (fmul a_s (rnd 0.06))) 90;
                text_muted = hsl_to_hex ah (max 4 (fmul a_s (rnd 0.08))) 63;
                text_dim = hsl_to_hex ah (max 5 (fmul a_s (rnd 0.1))) 38;
                green = hsl_to_hex 130 50 46;
                blue = hsl_to_hex 228 40 55;
                mag_hue = (if ah < 60 \<or> ah \<ge> 300 then 320 else fmod (fadd ah 180) 360);
                magenta = hsl_to_hex mag_hue (min 60 (max 40 (fmul a_s (rnd 0.8)))) 50;
                cyan = hsl_to_hex 175 40 48;
                insensitive_bg = hsl_to_hex ah (max 5 (fmul a_s (rnd 0.06))) 7;
                insensitive_fg = text_dim;
                warning = hsl_to_hex 35 70 58;
                ansi_black = hsl_to_hex ah (max 3 (fmul a_s (rnd 0.05))) 5;
                ansi_yellow = hsl_to_hex (fmod (fadd ah 8) 360) (min 80 a_s) (min 55 (fadd al 5));
                deep_maroon = hsl_to_hex ah (max 30 (fmul a_s (rnd 0.5))) 20
            in
            (case lighten green 8 of None \<Rightarrow> None | Some bright_green \<Rightarrow>
            (case lighten blue 10 of None \<Rightarrow> None | Some bright_blue \<Rightarrow>
            (case lighten magenta 12 of None \<Rightarrow> None | Some bright_magenta \<Rightarrow>
            (case lighten cyan 10 of None \<Rightarrow> None | Some bright_cyan \<Rightarrow>
            (case lighten text 3 of None \<Rightarrow> None | Some bright_white \<Rightarrow>
              Some
               [(''wallpaper'', wallpaper_path),
                (''bg_deepest'', bg_deepest),
                (''bg_main'', bg_main),
                (''bg_surface'', bg_surface),
                (''bg_elevated'', bg_elevated),
                (''border'', border),
                (''border_bright'', border_bright),
                (''accent'', accent),
                (''accent_hover'', accent_hover),
                (''accent_light'', accent_light),
                (''accent_soft'', accent_soft),
                (''accent_rose'', accent_rose),
                (''text'', text),
                (''text_muted'', text_muted),
                (''text_dim'', text_dim),
                (''green'', green),
                (''blue'', blue),
                (''magenta'', magenta),
                (''cyan'', cyan),
                (''warning'', warning),
                (''insensitive_bg'', insensitive_bg),
                (''insensitive_fg'', insensitive_fg),
                (''deep_maroon'', deep_maroon),
                (''ansi_black'', ansi_black),
                (''ansi_red'', accent),
                (''ansi_green'', green),
                (''ansi_yellow'', ansi_yellow),
                (''ansi_blue'', blue),
                (''ansi_magenta'', magenta),
                (''ansi_cyan'', cyan),
                (''ansi_white'', text_muted),
                (''ansi_bright_black'', border),
                (''ansi_bright_red'', accent_light),
                (''ansi_bright_green'', bright_green),
                (''ansi_bright_yellow'', accent_rose),
                (''ansi_bright_blue'', bright_blue),
                (''ansi_bright_magenta'', bright_magenta),
                (''ansi_bright_cyan'', bright_cyan),
                (''ansi_bright_white'', bright_white)])))))))"

subsection \<open>Vocabulary of the properties\<close>

text \<open>The keys of the returned palette, as a fixed list.\<close>

definition palette_keys :: "string list" where
  "palette_keys =
     [''wallpaper'', ''bg_deepest'', ''bg_main'', ''bg_surface'', ''bg_elevated'', ''border'',
      ''border_bright'', ''accent'', ''accent_hover'', ''accent_light'', ''accent_soft'',
      ''accent_rose'', ''text'', ''text_muted'', ''text_dim'', ''green'', ''blue'', ''magenta'',
      ''cyan'', ''warning'', ''insensitive_bg'', ''insensitive_fg'', ''deep_maroon'',
      ''ansi_black'', ''ansi_red'', ''ansi_green'', ''ansi_yellow'', ''ansi_blue'',
      ''ansi_magenta'', ''ansi_cyan'', ''ansi_white'', ''ansi_bright_black'',
      ''ansi_bright_red'', ''ansi_bright_green'', ''ansi_bright_yellow'', ''ansi_bright_blue'',
      ''ansi_bright_magenta'', ''ansi_bright_cyan'', ''ansi_bright_white'']"

text \<open>A string matching \<open>^#[0-9a-f]{6}$\<close>.\<close>

definition is_hex_color :: "string \<Rightarrow> bool" where
  "is_hex_color s =
     (case s of [] \<Rightarrow> False
      | c # ds \<Rightarrow> c = CHR ''#'' \<and> length ds = 6 \<and> list_all (\<lambda>x. x \<in> set ''0123456789abcdef'') ds)"

text \<open>A valid accent: \<open>#\<close> and six hexadecimal digits of either case.\<close>

definition valid_hex :: "string \<Rightarrow> bool" where
  "valid_hex s =
     (case s of [] \<Rightarrow> False
      | c # ds \<Rightarrow> c = CHR ''#'' \<and> length ds = 6 \<and> list_all (\<lambda>x. hexval x \<noteq> None) ds)"

text \<open>The population of cluster \<open>j\<close>: \<open>np.sum(labels == j)\<close> for the given centroids.\<close>

definition population :: "pixel list \<Rightarrow> centroid list \<Rightarrow> nat \<Rightarrow> nat" where
  "population pixels centroids j = length (filter (\<lambda>lab. lab = j) (assign_labels pixels centroids))"

text \<open>A pixel survives the filter of \<open>extract_colors\<close>.\<close>

definition midtone :: "pixel \<Rightarrow> bool" where
  "midtone p \<longleftrightarrow> \<not> (brightness p \<le> 60 \<or> brightness p \<ge> 700)"

section \<open>Properties\<close>

subsection \<open>Rounding to the nearest double\<close>

lemma pow2_powr: "pow2 e = 2 powr real_of_int e"
proof (cases "0 \<le> e")
  case True
  then show ?thesis by (simp add: pow2_def powr_realpow[symmetric])
next
  case False
  then have "2 powr real_of_int e = 1 / 2 powr real_of_int (- e)"
    by (simp add: powr_minus_divide)
  also have "\<dots> = 1 / 2 ^ nat (- e)" using False by (simp add: powr_realpow[symmetric])
  finally show ?thesis using False by (simp add: pow2_def)
qed

lemma pow2_pos: "0 < pow2 e"
  by (simp add: pow2_powr)

lemma pow2_add: "pow2 (a + b) = pow2 a * pow2 b"
  by (simp add: pow2_powr powr_add)

lemma pow2_mono: "a \<le> b \<Longrightarrow> pow2 a \<le> pow2 b"
  by (simp add: pow2_powr)

lemma pow2_half: "pow2 (e - 1) = pow2 e / 2"
  by (simp add: pow2_powr powr_diff)

lemma expo_bounds:
  assumes "x \<noteq> 0"
  shows "pow2 (expo x) \<le> \<bar>x\<bar>" and "\<bar>x\<bar> < pow2 (expo x + 1)"
proof -
  define a where "a = \<bar>x\<bar>"
  have a0: "0 < a" using assms by (simp add: a_def)
  have "pow2 (expo x) \<le> a \<and> a < pow2 (expo x + 1)"
  proof (cases "1 \<le> a")
    case True
    define n where "n = \<lfloor>a\<rfloor>"
    have n1: "1 \<le> n" using True by (simp add: n_def le_floor_iff)
    have e: "expo x = bitlen n - 1" using True by (simp add: expo_def a_def n_def Let_def)
    have bl: "1 \<le> bitlen n" using n1 bitlen_eq_zero_iff[of n] bitlen_nonneg[of n] by linarith
    from bitlen_bounds[of n] n1 have b: "2 ^ nat (bitlen n - 1) \<le> n" "n < 2 ^ nat (bitlen n)"
      by auto
    have "real_of_int (2 ^ nat (bitlen n - 1)) \<le> real_of_int n" using b(1) by linarith
    also have "\<dots> \<le> a" by (simp add: n_def)
    finally have lo: "pow2 (expo x) \<le> a" using bl by (simp add: e pow2_def)
    have "n + 1 \<le> 2 ^ nat (bitlen n)" using b(2) by simp
    then have "real_of_int (n + 1) \<le> real_of_int (2 ^ nat (bitlen n))" by linarith
    moreover have "a < real_of_int (n + 1)" by (simp add: n_def)
    ultimately have "a < 2 ^ nat (bitlen n)" by simp
    then have hi: "a < pow2 (expo x + 1)" using bl by (simp add: e pow2_def)
    from lo hi show ?thesis by blast
  next
    case False
    define y where "y = 1 / a"
    define k where "k = \<lceil>y\<rceil> - 1"
    have y1: "1 < y" using False a0 by (simp add: y_def)
    have k1: "1 \<le> k" using y1 by (simp add: k_def less_ceiling_iff)
    have e: "expo x = - bitlen k" using False by (simp add: expo_def a_def k_def y_def Let_def)
    have bl: "1 \<le> bitlen k" using k1 bitlen_eq_zero_iff[of k] bitlen_nonneg[of k] by linarith
    from bitlen_bounds[of k] k1 have b: "2 ^ nat (bitlen k - 1) \<le> k" "k < 2 ^ nat (bitlen k)"
      by auto
    have ky: "real_of_int k < y" "y \<le> real_of_int k + 1"
      unfolding k_def by linarith+
    have "k + 1 \<le> 2 ^ nat (bitlen k)" using b(2) by simp
    then have "real_of_int (k + 1) \<le> real_of_int (2 ^ nat (bitlen k))" by linarith
    then have yu: "y \<le> 2 ^ nat (bitlen k)" using ky(2) by simp
    have "(2::real) ^ nat (bitlen k - 1) = real_of_int (2 ^ nat (bitlen k - 1))" by simp
    also have "\<dots> \<le> real_of_int k" using b(1) by (simp only: of_int_le_iff)
    also have "\<dots> < y" by (rule ky(1))
    finally have yl: "2 ^ nat (bitlen k - 1) < y" .
    have p: "pow2 (expo x) = 1 / 2 ^ nat (bitlen k)" using bl by (simp add: e pow2_def)
    have q: "pow2 (expo x + 1) = 1 / 2 ^ nat (bitlen k - 1)"
    proof (cases "bitlen k = 1")
      case True
      then show ?thesis by (simp add: e pow2_def)
    next
      case False
      then have "- bitlen k + 1 < 0" using bl by simp
      moreover have "nat (bitlen k - 1) = nat (- (- bitlen k + 1))" by simp
      ultimately show ?thesis unfolding e pow2_def by simp
    qed
    have lo: "pow2 (expo x) \<le> a"
      unfolding p using yu a0 by (simp add: y_def field_simps)
    have hi: "a < pow2 (expo x + 1)"
      unfolding q using yl a0 by (simp add: y_def field_simps)
    from lo hi show ?thesis by blast
  qed
  then show "pow2 (expo x) \<le> \<bar>x\<bar>" and "\<bar>x\<bar> < pow2 (expo x + 1)" by (simp_all add: a_def)
qed

lemma round_even_error: "\<bar>of_int (round_even y) - y\<bar> \<le> 1 / 2"
  unfolding round_even_def Let_def by (auto split: if_splits)

lemma rnd_error:
  assumes "\<bar>x\<bar> \<le> pow2 k" "- 1022 \<le> k"
  shows "\<bar>rnd x - x\<bar> \<le> pow2 (k - 53)"
proof (cases "x = 0")
  case True
  then show ?thesis using pow2_pos[of "k - 53"] by (simp add: rnd_def)
next
  case False
  define e where "e = max (expo x) (- 1022)"
  define u where "u = pow2 (e - 52)"
  have "pow2 (expo x) \<le> pow2 k" using expo_bounds(1)[OF False] assms(1) by linarith
  then have "expo x \<le> k" by (simp add: pow2_powr)
  then have ek: "e \<le> k" using assms(2) by (simp add: e_def)
  have u0: "0 < u" by (simp add: u_def pow2_pos)
  have r: "rnd x = of_int (round_even (x / u)) * u"
    using False by (simp add: rnd_def Let_def u_def e_def)
  have "rnd x - x = (of_int (round_even (x / u)) - x / u) * u"
    unfolding r using u0 by (simp add: left_diff_distrib)
  then have "\<bar>rnd x - x\<bar> = \<bar>of_int (round_even (x / u)) - x / u\<bar> * u"
    using u0 by (simp add: abs_mult)
  also have "\<dots> \<le> (1 / 2) * u"
    using round_even_error[of "x / u"] u0 by (intro mult_right_mono) simp_all
  also have "\<dots> = pow2 (e - 53)"
    using pow2_half[of "e - 52"] by (simp add: u_def)
  also have "\<dots> \<le> pow2 (k - 53)" using ek by (intro pow2_mono) simp
  finally show ?thesis .
qed

lemma rnd_nonneg: "0 \<le> x \<Longrightarrow> 0 \<le> rnd x"
proof -
  assume x: "0 \<le> x"
  have "0 \<le> round_even y" if "0 \<le> y" for y
    using that unfolding round_even_def Let_def by (auto split: if_splits)
  moreover have "0 \<le> x / pow2 e" for e using x pow2_pos[of e] by simp
  moreover have "0 \<le> pow2 e" for e using pow2_pos[of e] by simp
  ultimately show ?thesis by (simp add: rnd_def Let_def)
qed

text \<open>
  A bound that serves for every value up to 4 in magnitude: the rounding error is at
  most \<open>2^-51\<close>.
\<close>

lemma rnd_near:
  assumes "\<bar>x\<bar> \<le> 4"
  shows "\<bar>rnd x - x\<bar> \<le> 1 / 2251799813685248"
proof -
  have "\<bar>x\<bar> \<le> pow2 2" using assms by (simp add: pow2_def)
  from rnd_error[OF this] show ?thesis by (simp add: pow2_def)
qed

lemma fadd_near: "\<bar>a + b\<bar> \<le> 4 \<Longrightarrow> \<bar>fadd a b - (a + b)\<bar> \<le> 1 / 2251799813685248"
  unfolding fadd_def by (rule rnd_near)

lemma fsub_near: "\<bar>a - b\<bar> \<le> 4 \<Longrightarrow> \<bar>fsub a b - (a - b)\<bar> \<le> 1 / 2251799813685248"
  unfolding fsub_def by (rule rnd_near)

lemma fmul_near: "\<bar>a * b\<bar> \<le> 4 \<Longrightarrow> \<bar>fmul a b - a * b\<bar> \<le> 1 / 2251799813685248"
  unfolding fmul_def by (rule rnd_near)

lemma fdiv_near: "\<bar>a / b\<bar> \<le> 4 \<Longrightarrow> \<bar>fdiv a b - a / b\<bar> \<le> 1 / 2251799813685248"
  unfolding fdiv_def by (rule rnd_near)

subsection \<open>No division by zero on 8-bit colours\<close>

lemma channel_near:
  assumes "0 \<le> r" "r \<le> 255"
  shows "\<bar>fdiv (of_int r) 255 - of_int r / 255\<bar> \<le> 1 / 2251799813685248"
  using assms by (intro fdiv_near) simp

lemma channel_gap:
  assumes "0 \<le> a" "a \<le> 255" "0 \<le> b" "b \<le> 255" "fdiv (of_int b) 255 < fdiv (of_int a) 255"
  shows "1 / 256 \<le> fdiv (of_int a) 255 - fdiv (of_int b) 255"
proof -
  have "b < a"
  proof (rule ccontr)
    assume "\<not> b < a"
    then have "a \<le> b" by simp
    then consider "a = b" | "a + 1 \<le> b" by linarith
    then show False
    proof cases
      case 1
      then show ?thesis using assms(5) by simp
    next
      case 2
      then have "real_of_int a + 1 \<le> real_of_int b" by linarith
      then have "real_of_int a / 255 + 1 / 255 \<le> real_of_int b / 255" by (simp add: field_simps)
      then show ?thesis
        using channel_near[OF assms(1,2)] channel_near[OF assms(3,4)] assms(5) by linarith
    qed
  qed
  then have "real_of_int b + 1 \<le> real_of_int a" by linarith
  then have "real_of_int b / 255 + 1 / 255 \<le> real_of_int a / 255" by (simp add: field_simps)
  then show ?thesis
    using channel_near[OF assms(1,2)] channel_near[OF assms(3,4)] by linarith
qed

lemma channel_unit:
  assumes "0 \<le> r" "r \<le> 255"
  shows "0 \<le> fdiv (of_int r) 255" "fdiv (of_int r) 255 \<le> 1 + 1 / 2251799813685248"
proof -
  show "0 \<le> fdiv (of_int r) 255" unfolding fdiv_def using assms by (intro rnd_nonneg) simp
  have "real_of_int r / 255 \<le> 1" using assms by simp
  then show "fdiv (of_int r) 255 \<le> 1 + 1 / 2251799813685248" using channel_near[OF assms] by linarith
qed

lemma rgb_to_hls_channels:
  assumes "0 \<le> r" "r \<le> 255" "0 \<le> g" "g \<le> 255" "0 \<le> b" "b \<le> 255"
  shows "\<exists>h l s. rgb_to_hls (fdiv (of_int r) 255) (fdiv (of_int g) 255) (fdiv (of_int b) 255)
           = Some (h, l, s)"
proof -
  define R where "R = fdiv (of_int r) 255"
  define G where "G = fdiv (of_int g) 255"
  define B where "B = fdiv (of_int b) 255"
  define M where "M = max (max R G) B"
  define m where "m = min (min R G) B"
  show ?thesis
  proof (cases "m = M")
    case True
    then show ?thesis
      unfolding rgb_to_hls_def Let_def R_def[symmetric] G_def[symmetric] B_def[symmetric]
        M_def[symmetric] m_def[symmetric] by simp
  next
    case False
    have "M = R \<or> M = G \<or> M = B" by (simp add: M_def max_def)
    then obtain a where a: "M = fdiv (of_int a) 255" "0 \<le> a" "a \<le> 255"
      using assms unfolding R_def G_def B_def by blast
    have "m = R \<or> m = G \<or> m = B" by (simp add: m_def min_def)
    then obtain c where c: "m = fdiv (of_int c) 255" "0 \<le> c" "c \<le> 255"
      using assms unfolding R_def G_def B_def by blast
    have "m \<le> M" by (simp add: m_def M_def min_def max_def)
    then have lt: "m < M" using False by simp
    have gap: "1 / 256 \<le> M - m"
      using channel_gap[OF a(2,3) c(2,3)] lt by (simp add: a(1) c(1))
    have m0: "0 \<le> m" using channel_unit(1)[OF c(2,3)] by (simp add: c(1))
    have M1: "M \<le> 1 + 1 / 2251799813685248" using channel_unit(2)[OF a(2,3)] by (simp add: a(1))
    have "\<bar>fsub M m - (M - m)\<bar> \<le> 1 / 2251799813685248"
      using m0 M1 lt by (intro fsub_near) linarith
    then have range: "fsub M m \<noteq> 0" using gap by linarith
    have "\<bar>fadd M m - (M + m)\<bar> \<le> 1 / 2251799813685248"
      using m0 M1 lt by (intro fadd_near) linarith
    then have sum: "fadd M m \<noteq> 0" using gap m0 by linarith
    have 1: "\<bar>fsub 2 M - (2 - M)\<bar> \<le> 1 / 2251799813685248"
      using m0 M1 lt by (intro fsub_near) linarith
    have "\<bar>fsub (fsub 2 M) m - (fsub 2 M - m)\<bar> \<le> 1 / 2251799813685248"
      using 1 m0 M1 lt by (intro fsub_near) linarith
    then have den: "fsub (fsub 2 M) m \<noteq> 0" using 1 gap M1 by linarith
    show ?thesis
      unfolding rgb_to_hls_def Let_def R_def[symmetric] G_def[symmetric] B_def[symmetric]
        M_def[symmetric] m_def[symmetric]
      using False range sum den by simp
  qed
qed

lemma rgb_to_hsl_channels:
  assumes "0 \<le> r" "r \<le> 255" "0 \<le> g" "g \<le> 255" "0 \<le> b" "b \<le> 255"
  shows "\<exists>h s l. rgb_to_hsl r g b = Some (h, s, l)"
proof -
  from rgb_to_hls_channels[OF assms] obtain h l s where
    "rgb_to_hls (fdiv (of_int r) 255) (fdiv (of_int g) 255) (fdiv (of_int b) 255) = Some (h, l, s)"
    by blast
  then show ?thesis by (simp add: rgb_to_hsl_def)
qed

lemma pyint_of_int: "pyint (of_int n) = n"
  by (simp add: pyint_def)

subsection \<open>Empty inputs\<close>

text \<open>
  C9: an empty pixel sample is not an error. \<open>kmeans_colors\<close> on the empty sample returns
  the empty list, for every \<open>k\<close> and \<open>max_iter\<close>, and \<open>pick_accent\<close> on the empty list
  returns the fallback red \<open>#c41e3a\<close>.
\<close>

theorem empty_sample_not_an_error:
  "kmeans_colors [] k max_iter = Some [] \<and> pick_accent [] = Some ''#c41e3a''"
  by (simp add: kmeans_colors_def pick_accent_def)

subsection \<open>The pixel filter of extract\_colors\<close>

lemma filter_replicate_if: "filter P (replicate n x) = (if P x then replicate n x else [])"
  by (induction n) auto

text \<open>
  C6, as the code has it: the filter keeps exactly the pixels whose channel sum is
  neither at most 60 nor at least 700, in their order; the filtered sample is used when
  more than 1000 pixels survive, and the unfiltered sample otherwise, also when exactly
  1000 survive.
\<close>

theorem sample_filter_threshold:
  "extract_colors_sample pixels =
     (if length (filter midtone pixels) > 1000 then filter midtone pixels else pixels)"
proof -
  have "midtone = (\<lambda>p. brightness p > 60 \<and> brightness p < 700)"
    by (auto simp: midtone_def fun_eq_iff)
  then show ?thesis by (simp add: extract_colors_sample_def Let_def)
qed

text \<open>
  The claim as written fails on a 200 x 200 image with exactly 1000 surviving pixels:
  at least 1000 survive, yet the unfiltered sample is used.
\<close>

theorem exactly_1000_survivors_unfiltered:
  "length (filter midtone (replicate 1000 (100, 100, 100) @ replicate 39000 (0, 0, 0))) = 1000
   \<and> extract_colors_sample (replicate 1000 (100, 100, 100) @ replicate 39000 (0, 0, 0))
       = replicate 1000 (100, 100, 100) @ replicate 39000 (0, 0, 0)
   \<and> extract_colors_sample (replicate 1000 (100, 100, 100) @ replicate 39000 (0, 0, 0))
       \<noteq> filter midtone (replicate 1000 (100, 100, 100) @ replicate 39000 (0, 0, 0))"
proof -
  have a: "midtone (100, 100, 100)" and b: "\<not> midtone (0, 0, 0)"
    by (simp_all add: midtone_def brightness_def)
  have f: "filter midtone (replicate 1000 (100, 100, 100) @ replicate 39000 (0, 0, 0))
            = replicate 1000 (100, 100, 100)"
    using a b by (simp add: filter_replicate_if)
  have g: "filter (\<lambda>p. brightness p > 60 \<and> brightness p < 700)
             (replicate 1000 (100, 100, 100) @ replicate 39000 (0, 0, 0))
            = replicate 1000 (100, 100, 100)"
    by (simp add: filter_replicate_if brightness_def)
  have ne: "replicate 1000 (100, 100, 100) @ replicate 39000 (0, 0, 0) \<noteq>
        replicate 1000 ((100, 100, 100) :: pixel)"
  proof
    assume "replicate 1000 (100, 100, 100) @ replicate 39000 (0, 0, 0) =
        replicate 1000 ((100, 100, 100) :: pixel)"
    then have "length (replicate 1000 ((100, 100, 100) :: pixel) @ replicate 39000 (0, 0, 0))
       = length (replicate 1000 ((100, 100, 100) :: pixel))" by simp
    then show False by simp
  qed
  have e: "extract_colors_sample (replicate 1000 (100, 100, 100) @ replicate 39000 (0, 0, 0))
       = replicate 1000 (100, 100, 100) @ replicate 39000 (0, 0, 0)"
    unfolding extract_colors_sample_def Let_def g by simp
  show ?thesis
    unfolding f e using ne by simp
qed

subsection \<open>Hexadecimal strings\<close>

lemma hexval_less: "hexval c = Some v \<Longrightarrow> v < 16"
  by (auto simp: hexval_def Let_def split: if_splits)

lemma hexval_hash: "hexval CHR ''#'' = None"
  by (simp add: hexval_def)

lemma int16_pair:
  assumes "hexval c = Some v" "hexval c' = Some v'"
  shows "int16 [c, c'] = Some (int (16 * v + v'))"
  using assms by (simp add: int16_def)

lemma list6:
  assumes "length ds = 6"
  obtains d1 d2 d3 d4 d5 d6 where "ds = [d1, d2, d3, d4, d5, d6]"
proof -
  from assms have "length ds = Suc (Suc (Suc (Suc (Suc (Suc 0)))))" by simp
  then show ?thesis using that by (auto simp: length_Suc_conv)
qed

lemma hex_to_rgb_valid:
  assumes "valid_hex a"
  shows "\<exists>r g b. hex_to_rgb a = Some (r, g, b) \<and> 0 \<le> r \<and> r \<le> 255 \<and> 0 \<le> g \<and> g \<le> 255
           \<and> 0 \<le> b \<and> b \<le> 255"
proof -
  from assms obtain ds where a: "a = CHR ''#'' # ds" and len: "length ds = 6"
    and all: "list_all (\<lambda>x. hexval x \<noteq> None) ds"
    by (auto simp: valid_hex_def split: list.splits)
  from len obtain d1 d2 d3 d4 d5 d6 where ds: "ds = [d1, d2, d3, d4, d5, d6]" by (rule list6)
  from all ds obtain v1 v2 v3 v4 v5 v6 where
    v: "hexval d1 = Some v1" "hexval d2 = Some v2" "hexval d3 = Some v3"
       "hexval d4 = Some v4" "hexval d5 = Some v5" "hexval d6 = Some v6"
    by auto
  have lt: "v1 < 16" "v2 < 16" "v3 < 16" "v4 < 16" "v5 < 16" "v6 < 16"
    using v by (auto dest: hexval_less)
  have "d1 \<noteq> CHR ''#''" using v(1) hexval_hash by auto
  then have "hex_to_rgb a =
      Some (int (16 * v1 + v2), int (16 * v3 + v4), int (16 * v5 + v6))"
    unfolding hex_to_rgb_def a ds
    by (simp add: int16_pair[OF v(1) v(2)] int16_pair[OF v(3) v(4)] int16_pair[OF v(5) v(6)])
  then show ?thesis using lt by auto
qed

lemma below_16_cases:
  assumes "d < (16::nat)"
  shows "d \<in> {0, 1, 2, 3, 4, 5, 6, 7, 8, 9, 10, 11, 12, 13, 14, 15}"
  using assms by simp arith

lemma hexdigit_lower: "d < 16 \<Longrightarrow> hexdigit d \<in> set ''0123456789abcdef''"
  by (drule below_16_cases) (auto simp: hexdigit_def)


lemma hexval_lower: "c \<in> set ''0123456789abcdef'' \<Longrightarrow> \<exists>v. hexval c = Some v"
  by (auto simp: hexval_def)

lemma clamp255_range: "0 \<le> clamp255 n \<and> clamp255 n \<le> 255"
  by (simp add: clamp255_def)

lemma clamp255_id: "0 \<le> n \<Longrightarrow> n \<le> 255 \<Longrightarrow> clamp255 n = n"
  by (simp add: clamp255_def)

lemma fmt02x_digits:
  assumes "0 \<le> n" "n \<le> 255"
  shows "\<exists>a b. fmt02x n = [hexdigit a, hexdigit b] \<and> a < 16 \<and> b < 16 \<and> n = int (16 * a + b)"
proof -
  have "nat n div 16 < 16" using assms by (simp add: div_less_iff_less_mult) 
  moreover have "nat n mod 16 < 16" by simp
  moreover have "n = int (16 * (nat n div 16) + nat n mod 16)" using assms by simp
  ultimately show ?thesis unfolding fmt02x_def by blast
qed


lemma is_hex_color_rgb_to_hex: "is_hex_color (rgb_to_hex r g b)"
proof -
  obtain a1 b1 where 1: "fmt02x (clamp255 (pyint r)) = [hexdigit a1, hexdigit b1]" "a1 < 16" "b1 < 16"
    using fmt02x_digits[of "clamp255 (pyint r)"] clamp255_range by blast
  obtain a2 b2 where 2: "fmt02x (clamp255 (pyint g)) = [hexdigit a2, hexdigit b2]" "a2 < 16" "b2 < 16"
    using fmt02x_digits[of "clamp255 (pyint g)"] clamp255_range by blast
  obtain a3 b3 where 3: "fmt02x (clamp255 (pyint b)) = [hexdigit a3, hexdigit b3]" "a3 < 16" "b3 < 16"
    using fmt02x_digits[of "clamp255 (pyint b)"] clamp255_range by blast
  show ?thesis
    unfolding rgb_to_hex_def is_hex_color_def 1 2 3
    using 1(2,3) 2(2,3) 3(2,3) by (simp add: hexdigit_lower del: set_simps)
qed

lemma is_hex_color_valid: "is_hex_color s \<Longrightarrow> valid_hex s"
  unfolding is_hex_color_def valid_hex_def
  by (cases s) (auto simp: list_all_iff dest!: hexval_lower simp del: set_simps)


subsection \<open>The GNOME accent table\<close>

text \<open>
  C4, as the code has it: \<open>get_gnome_accent_name\<close> classifies the hue and the
  saturation of the parsed colour by exactly this table. A saturation strictly below 15
  gives slate for every hue. With a saturation of at least 15: a hue below 15 or of at
  least 345 gives red, from 15 to below 40 orange, from 40 to below 70 yellow, from 70 to
  below 160 green, from 160 to below 195 teal, from 195 to below 260 blue, from 260 to
  below 300 purple, and from 300 to below 345 pink; so every range is half-open on the
  low side (14.9 is red, 15.0 orange, 344.9 pink, 345.0 red). A saturation of exactly
  15.0 is not slate but is looked up in the hue table, as 15.1 is.
\<close>

theorem gnome_accent_table:
  "(s0 < 15 \<longrightarrow> gnome_accent_of h0 s0 = ''slate'')
   \<and> (15 \<le> s \<longrightarrow>
        (h1 < 15 \<or> 345 \<le> h1 \<longrightarrow> gnome_accent_of h1 s = ''red'')
      \<and> (15 \<le> h2 \<and> h2 < 40 \<longrightarrow> gnome_accent_of h2 s = ''orange'')
      \<and> (40 \<le> h3 \<and> h3 < 70 \<longrightarrow> gnome_accent_of h3 s = ''yellow'')
      \<and> (70 \<le> h4 \<and> h4 < 160 \<longrightarrow> gnome_accent_of h4 s = ''green'')
      \<and> (160 \<le> h5 \<and> h5 < 195 \<longrightarrow> gnome_accent_of h5 s = ''teal'')
      \<and> (195 \<le> h6 \<and> h6 < 260 \<longrightarrow> gnome_accent_of h6 s = ''blue'')
      \<and> (260 \<le> h7 \<and> h7 < 300 \<longrightarrow> gnome_accent_of h7 s = ''purple'')
      \<and> (300 \<le> h8 \<and> h8 < 345 \<longrightarrow> gnome_accent_of h8 s = ''pink'')
      \<and> gnome_accent_of 14.9 s = ''red'' \<and> gnome_accent_of 15.0 s = ''orange''
      \<and> gnome_accent_of 344.9 s = ''pink'' \<and> gnome_accent_of 345.0 s = ''red'')
   \<and> gnome_accent_of h 15.0 \<noteq> ''slate''
   \<and> gnome_accent_of h 15.0 = gnome_accent_of h 15.1
   \<and> (hex_to_hsl accent_hex = Some (h', s', l') \<longrightarrow>
        get_gnome_accent_name accent_hex = Some (gnome_accent_of h' s'))"
  by (simp add: gnome_accent_of_def get_gnome_accent_name_def)

lemma gnome_ff0000: "hex_to_hsl ''#ff0000'' = Some (0, 100, 50)"
  by code_simp

theorem gnome_accent_table_witness:
  "(10::real) < 15 \<and> gnome_accent_of 200 10 = ''slate''
   \<and> (15::real) \<le> 15
   \<and> gnome_accent_of 14.9 15 = ''red'' \<and> gnome_accent_of 345 15 = ''red''
   \<and> gnome_accent_of 15 15 = ''orange'' \<and> gnome_accent_of 39.9 15 = ''orange''
   \<and> gnome_accent_of 40 15 = ''yellow'' \<and> gnome_accent_of 69.9 15 = ''yellow''
   \<and> gnome_accent_of 70 15 = ''green'' \<and> gnome_accent_of 159.9 15 = ''green''
   \<and> gnome_accent_of 160 15 = ''teal'' \<and> gnome_accent_of 194.9 15 = ''teal''
   \<and> gnome_accent_of 195 15 = ''blue'' \<and> gnome_accent_of 259.9 15 = ''blue''
   \<and> gnome_accent_of 260 15 = ''purple'' \<and> gnome_accent_of 299.9 15 = ''purple''
   \<and> gnome_accent_of 300 15 = ''pink'' \<and> gnome_accent_of 344.9 15 = ''pink''
   \<and> hex_to_hsl ''#ff0000'' = Some (0, 100, 50)
   \<and> get_gnome_accent_name ''#ff0000'' = Some ''red''"
proof -
  note T = gnome_accent_table[of 10 200 15 _ _ _ _ _ _ _ _ 0 "''#ff0000''" 0 100 50]
  show ?thesis
    using T[of 345 15 40 70 160 195 260 300] T[of "14.9" "39.9" "69.9" "159.9" "194.9" "259.9" "299.9" "344.9"]
      gnome_accent_table[of 10 200 100 0 15 40 70 160 195 260 300 0 "''#ff0000''" 0 100 50]
      gnome_ff0000
    by simp
qed

text \<open>
  Two colours whose saturation and hue fall just below a boundary in double arithmetic
  (saturation 14.999999999999995, hue 69.99999999999999).
\<close>

lemma gnome_boundary_colours:
  "get_gnome_accent_name ''#453333'' = Some ''slate''
   \<and> get_gnome_accent_name ''#050600'' = Some ''yellow''"
  by code_simp

text \<open>
  The claim as written fails at saturation 15.0: hue 100 is green there, and the colour
  \<open>#171411\<close>, whose saturation is exactly 15.0, is orange.
\<close>

theorem saturation_15_not_slate:
  "gnome_accent_of 100 15.0 = ''green''
   \<and> hex_to_hsl ''#171411'' = Some (30, 15.0, 8830587504648031 / 1125899906842624)
   \<and> get_gnome_accent_name ''#171411'' = Some ''orange''"
proof -
  have a: "gnome_accent_of 100 15.0 = ''green''" by (simp add: gnome_accent_of_def)
  have b: "hex_to_hsl ''#171411'' = Some (30, 15.0, 8830587504648031 / 1125899906842624)"
    by code_simp
  have c: "get_gnome_accent_name ''#171411'' = Some ''orange''"
    by (simp add: get_gnome_accent_name_def b gnome_accent_of_def)
  from a b c show ?thesis by blast
qed

subsection \<open>hsl\_to\_rgb: hue, truncation and clamping\<close>










subsection \<open>The generated palette\<close>

lemma hex_to_hsl_valid:
  assumes "valid_hex a"
  shows "\<exists>hsl. hex_to_hsl a = Some hsl"
proof -
  from hex_to_rgb_valid[OF assms] obtain r g b where
    p: "hex_to_rgb a = Some (r, g, b)" and
    rng: "0 \<le> r" "r \<le> 255" "0 \<le> g" "g \<le> 255" "0 \<le> b" "b \<le> 255" by blast
  from rgb_to_hsl_channels[OF rng] obtain h s l where "rgb_to_hsl r g b = Some (h, s, l)" by blast
  then show ?thesis by (simp add: hex_to_hsl_def p)
qed

lemma is_hex_color_hsl_to_hex: "is_hex_color (hsl_to_hex h s l)"
  by (cases "hsl_to_rgb h s l") (simp add: hsl_to_hex_def is_hex_color_rgb_to_hex)

lemma lighten_hex_color:
  assumes "is_hex_color c"
  shows "\<exists>c'. lighten c amount = Some c' \<and> is_hex_color c'"
proof -
  from hex_to_hsl_valid[OF is_hex_color_valid[OF assms]] obtain h s l
    where "hex_to_hsl c = Some (h, s, l)" by (metis prod_cases3)
  then show ?thesis by (simp add: lighten_def is_hex_color_hsl_to_hex)
qed

lemma generate_palette_shape:
  assumes "hex_to_hsl a = Some hsl"
  shows "\<exists>p. generate_palette a w = Some p \<and> map fst p = palette_keys
           \<and> (\<forall>(k, v) \<in> set p. k \<noteq> ''wallpaper'' \<longrightarrow> is_hex_color v)
           \<and> map_of p ''wallpaper'' = Some w
           \<and> map_of p ''accent'' = Some (case normalize_accent hsl of (h, s, l) \<Rightarrow> hsl_to_hex h s l)"
proof -
  obtain ah a_s al where n: "normalize_accent hsl = (ah, a_s, al)" by (rule prod_cases3)
  obtain g' where g: "lighten (hsl_to_hex 130 50 46) 8 = Some g'" "is_hex_color g'"
    using lighten_hex_color[OF is_hex_color_hsl_to_hex] by blast
  obtain b' where b: "lighten (hsl_to_hex 228 40 55) 10 = Some b'" "is_hex_color b'"
    using lighten_hex_color[OF is_hex_color_hsl_to_hex] by blast
  obtain m' where m: "lighten (hsl_to_hex (if ah < 60 \<or> ah \<ge> 300 then 320 else fmod (fadd ah 180) 360)
        (min 60 (max 40 (fmul a_s (rnd 0.8)))) 50) 12 = Some m'" "is_hex_color m'"
    using lighten_hex_color[OF is_hex_color_hsl_to_hex] by blast
  obtain c' where c: "lighten (hsl_to_hex 175 40 48) 10 = Some c'" "is_hex_color c'"
    using lighten_hex_color[OF is_hex_color_hsl_to_hex] by blast
  obtain t' where t: "lighten (hsl_to_hex ah (max 3 (fmul a_s (rnd 0.06))) 90) 3 = Some t'" "is_hex_color t'"
    using lighten_hex_color[OF is_hex_color_hsl_to_hex] by blast
  show ?thesis
    unfolding generate_palette_def Let_def assms n option.case prod.case g(1) b(1) m(1) c(1) t(1)
    by (simp add: palette_keys_def is_hex_color_hsl_to_hex g(2) b(2) m(2) c(2) t(2))
qed

text \<open>
  C8: \<open>generate_palette\<close> is total on valid accents. For every string made of \<open>#\<close> and
  six hexadecimal digits it returns a palette whose keys are exactly the fixed list of
  role keys, each once, whatever the accent; and every value but the wallpaper path
  matches \<open>^#[0-9a-f]{6}$\<close>.
\<close>

theorem generate_palette_total:
  assumes "valid_hex accent_hex"
  shows "\<exists>p. generate_palette accent_hex wallpaper_path = Some p
           \<and> map fst p = palette_keys \<and> distinct palette_keys
           \<and> dom (map_of p) = set palette_keys
           \<and> (\<forall>(k, v) \<in> set p. k \<noteq> ''wallpaper'' \<longrightarrow> is_hex_color v)"
proof -
  from hex_to_hsl_valid[OF assms] obtain hsl where "hex_to_hsl accent_hex = Some hsl" by blast
  from generate_palette_shape[OF this, of wallpaper_path] obtain p where
    p: "generate_palette accent_hex wallpaper_path = Some p" "map fst p = palette_keys"
       "\<forall>(k, v) \<in> set p. k \<noteq> ''wallpaper'' \<longrightarrow> is_hex_color v" by blast
  have "distinct palette_keys" by (simp add: palette_keys_def)
  moreover have "dom (map_of p) = set palette_keys"
    using p(2) by (metis dom_map_of_conv_image_fst set_map)
  ultimately show ?thesis using p by blast
qed

theorem generate_palette_total_witness:
  "valid_hex ''#C41e3a'' \<and> (\<exists>p. generate_palette ''#C41e3a'' ''wall.png'' = Some p
           \<and> map fst p = palette_keys \<and> distinct palette_keys
           \<and> dom (map_of p) = set palette_keys
           \<and> (\<forall>(k, v) \<in> set p. k \<noteq> ''wallpaper'' \<longrightarrow> is_hex_color v))"
proof -
  have v: "valid_hex ''#C41e3a''" by (simp add: valid_hex_def hexval_def)
  from generate_palette_total[OF v] v show ?thesis by blast
qed

lemma generate_palette_factors:
  assumes "hex_to_hsl a = Some hsl" "hex_to_hsl a' = Some hsl'"
    "normalize_accent hsl = normalize_accent hsl'"
  shows "generate_palette a w = generate_palette a' w"
  unfolding generate_palette_def assms(1,2) option.case assms(3) by (rule refl)

text \<open>
  C7: \<open>generate_palette\<close> normalizes the accent before any derivation. A saturation
  below 40 becomes 60, a lightness below 25 becomes 40 and a lightness above 65 becomes
  50; the palette's accent is the normalized colour; two accents with the same
  normalized colour give the same palette, so nothing is derived from the accent as it
  was given; and \<open>#000000\<close>, of saturation 0 and lightness 0, is normalized to
  saturation 60 and lightness 40.
\<close>

theorem accent_normalized_first:
  "normalize_accent (h, s, l) =
     (h, if s < 40 then 60 else s, if l < 25 then 40 else if l > 65 then 50 else l)
   \<and> (hex_to_hsl a = Some hsl \<longrightarrow>
        (\<exists>p. generate_palette a w = Some p \<and>
             map_of p ''accent'' = Some (case normalize_accent hsl of (h, s, l) \<Rightarrow> hsl_to_hex h s l)))
   \<and> (hex_to_hsl a = Some hsl \<and> hex_to_hsl a' = Some hsl'
        \<and> normalize_accent hsl = normalize_accent hsl' \<longrightarrow>
        generate_palette a w = generate_palette a' w)
   \<and> hex_to_hsl ''#000000'' = Some (0, 0, 0) \<and> normalize_accent (0, 0, 0) = (0, 60, 40)"
proof -
  have 1: "normalize_accent (h, s, l) =
     (h, if s < 40 then 60 else s, if l < 25 then 40 else if l > 65 then 50 else l)"
    by (simp add: normalize_accent_def Let_def)
  have 2: "hex_to_hsl a = Some hsl \<longrightarrow>
        (\<exists>p. generate_palette a w = Some p \<and>
             map_of p ''accent'' = Some (case normalize_accent hsl of (h, s, l) \<Rightarrow> hsl_to_hex h s l))"
    using generate_palette_shape[of a hsl w] by blast
  have 3: "hex_to_hsl a = Some hsl \<and> hex_to_hsl a' = Some hsl'
        \<and> normalize_accent hsl = normalize_accent hsl' \<longrightarrow>
        generate_palette a w = generate_palette a' w"
    using generate_palette_factors by blast
  have 4: "hex_to_hsl ''#000000'' = Some (0, 0, 0)" by code_simp
  have 5: "normalize_accent (0, 0, 0) = (0, 60, 40)" by (simp add: normalize_accent_def)
  from 1 2 3 4 5 show ?thesis by blast
qed

theorem accent_normalized_first_witness:
  "hex_to_hsl ''#000000'' = Some (0, 0, 0)
   \<and> hex_to_hsl ''#010101'' = Some (0, 0, 7064470003718425 / 18014398509481984)
   \<and> normalize_accent (0, 0, 0) = normalize_accent (0, 0, 7064470003718425 / 18014398509481984)
   \<and> normalize_accent (0, 0, 0) = (0, 60, 40)
   \<and> (\<exists>p. generate_palette ''#000000'' ''w'' = Some p \<and> map_of p ''accent'' = Some ''#a32828'')
   \<and> generate_palette ''#000000'' ''w'' = generate_palette ''#010101'' ''w''"
proof -
  have a: "hex_to_hsl ''#000000'' = Some (0, 0, 0)" by code_simp
  have b: "hex_to_hsl ''#010101'' = Some (0, 0, 7064470003718425 / 18014398509481984)"
    by code_simp
  have c: "normalize_accent (0, 0, 0) = (0, 60, 40)" by (simp add: normalize_accent_def)
  have d: "normalize_accent (0, 0, 7064470003718425 / 18014398509481984) = (0, 60, 40)"
    by (simp add: normalize_accent_def)
  have e: "hsl_to_hex 0 60 40 = ''#a32828''" by code_simp
  note T = accent_normalized_first[of 0 0 0 "''#000000''" "(0, 0, 0)" "''w''" "''#010101''"
        "(0, 0, 7064470003718425 / 18014398509481984)"]
  have f: "\<exists>p. generate_palette ''#000000'' ''w'' = Some p \<and> map_of p ''accent'' = Some ''#a32828''"
    using T[THEN conjunct2, THEN conjunct1, rule_format, OF a] unfolding c prod.case e .
  have g: "generate_palette ''#000000'' ''w'' = generate_palette ''#010101'' ''w''"
    by (rule T[THEN conjunct2, THEN conjunct2, THEN conjunct1, rule_format])
      (simp only: a b c d)
  show ?thesis
    using a b c d f g by (intro conjI) (simp_all only:)
qed

subsection \<open>The descending sort\<close>

lemma set_insort_desc: "set (insort_desc x xs) = insert x (set xs)"
  by (induction xs) auto

lemma length_insort_desc: "length (insort_desc x xs) = Suc (length xs)"
  by (induction xs) auto

lemma distinct_insort_desc: "distinct (insort_desc x xs) \<longleftrightarrow> x \<notin> set xs \<and> distinct xs"
  by (induction xs) (auto simp: set_insort_desc)

lemma sorted_insort_desc:
  "sorted_wrt (\<lambda>a b. b \<le> a) xs \<Longrightarrow> sorted_wrt (\<lambda>a b. b \<le> a) (insort_desc x xs)"
  by (induction xs) (auto simp: set_insort_desc)

lemma sort_reverse_Cons: "sort_reverse (x # xs) = insort_desc x (sort_reverse xs)"
  by (simp add: sort_reverse_def)

lemma set_sort_reverse: "set (sort_reverse xs) = set xs"
  by (induction xs) (simp_all add: sort_reverse_def set_insort_desc)

lemma length_sort_reverse: "length (sort_reverse xs) = length xs"
  by (induction xs) (simp_all add: sort_reverse_def length_insort_desc)

lemma distinct_sort_reverse: "distinct (sort_reverse xs) = distinct xs"
  by (induction xs) (simp_all add: sort_reverse_def distinct_insort_desc set_sort_reverse[unfolded sort_reverse_def])

lemma sorted_sort_reverse: "sorted_wrt (\<lambda>a b. b \<le> a) (sort_reverse xs)"
  by (induction xs) (simp_all add: sort_reverse_def sorted_insort_desc)

lemma sort_reverse_first:
  assumes "sort_reverse xs = y # ys"
  shows "y \<in> set xs \<and> (\<forall>x \<in> set xs. x \<le> y)"
proof -
  have "set xs = set (y # ys)" using assms set_sort_reverse[of xs] by simp
  moreover have "sorted_wrt (\<lambda>a b. b \<le> a) (y # ys)" using assms sorted_sort_reverse[of xs] by simp
  ultimately show ?thesis by auto
qed

subsection \<open>Accent selection\<close>

lemma score_all_map:
  assumes "\<forall>c \<in> set cs. \<exists>s. score_accent c = Some s"
  shows "score_all cs = Some (map (\<lambda>c. (the (score_accent c), c)) cs)"
  using assms by (induction cs) auto

lemma score_accent_valid:
  assumes "valid_hex c"
  shows "\<exists>s. score_accent c = Some s"
proof -
  from hex_to_hsl_valid[OF assms] obtain h s l where "hex_to_hsl c = Some (h, s, l)"
    by (metis prod_cases3)
  then show ?thesis unfolding score_accent_def by (simp only: option.case prod.case Let_def) blast
qed

text \<open>
  C2, as the code has it: for every non-empty list of valid hex colours \<open>pick_accent\<close>
  returns a candidate of the list with the maximal \<open>score_accent\<close> value; among the
  candidates that attain this score it returns the greatest string in code point order
  (the tuples \<open>(score, colour)\<close> are sorted in descending order), not the first one of
  the input.
\<close>

theorem pick_accent_maximal:
  assumes "colors \<noteq> []" and "\<forall>c \<in> set colors. valid_hex c"
  shows "\<exists>a sa. pick_accent colors = Some a \<and> a \<in> set colors \<and> score_accent a = Some sa
           \<and> (\<forall>c \<in> set colors. \<forall>sc. score_accent c = Some sc \<longrightarrow>
                 sc \<le> sa \<and> (sc = sa \<longrightarrow> c \<le> a))"
proof -
  let ?f = "\<lambda>c. (the (score_accent c), c)"
  have ok: "\<forall>c \<in> set colors. \<exists>s. score_accent c = Some s"
    using assms(2) score_accent_valid by blast
  then have sc: "score_all colors = Some (map ?f colors)" by (rule score_all_map)
  have "length (sort_reverse (map ?f colors)) = length colors" by (simp add: length_sort_reverse)
  then obtain best rest where srt: "sort_reverse (map ?f colors) = best # rest"
    using assms(1) by (cases "sort_reverse (map ?f colors)") auto
  from sort_reverse_first[OF srt] have mem: "best \<in> set (map ?f colors)"
    and top: "\<forall>x \<in> set (map ?f colors). x \<le> best" by blast+
  from mem obtain a where a: "a \<in> set colors" "best = ?f a" by auto
  from ok a(1) obtain sa where sa: "score_accent a = Some sa" by blast
  have pick: "pick_accent colors = Some a"
    using assms(1) by (simp add: pick_accent_def sc srt a(2))
  have "sc \<le> sa \<and> (sc = sa \<longrightarrow> c \<le> a)" if "c \<in> set colors" "score_accent c = Some sc" for c sc
  proof -
    have "?f c \<le> best" using top that(1) by simp
    then have "(sc, c) \<le> (sa, a)" using that(2) a(2) sa by simp
    then show ?thesis by (auto simp: less_eq_prod_def)
  qed
  with pick a(1) sa show ?thesis by blast
qed

theorem pick_accent_maximal_witness:
  "[''#808080'', ''#c41e3a''] \<noteq> [] \<and> valid_hex ''#808080'' \<and> valid_hex ''#c41e3a''
   \<and> (\<exists>a sa. pick_accent [''#808080'', ''#c41e3a''] = Some a \<and> a \<in> set [''#808080'', ''#c41e3a'']
        \<and> score_accent a = Some sa
        \<and> (\<forall>c \<in> set [''#808080'', ''#c41e3a'']. \<forall>sc. score_accent c = Some sc \<longrightarrow>
                 sc \<le> sa \<and> (sc = sa \<longrightarrow> c \<le> a)))"
proof -
  have v: "\<forall>c \<in> set [''#808080'', ''#c41e3a'']. valid_hex c"
    by (simp add: valid_hex_def hexval_def)
  have n: "[''#808080'', ''#c41e3a''] \<noteq> []" by simp
  from pick_accent_maximal[OF n v] n v show ?thesis by simp
qed

text \<open>
  The claim as written fails on a tie: \<open>#000000\<close> and \<open>#ffffff\<close> both score 0, and
  the second one is returned although the first one comes first in the input.
\<close>

theorem pick_accent_tie_not_first:
  "score_accent ''#000000'' = Some 0 \<and> score_accent ''#ffffff'' = Some 0
   \<and> pick_accent [''#000000'', ''#ffffff''] = Some ''#ffffff''"
proof -
  have a: "score_accent ''#000000'' = Some 0" by code_simp
  have b: "score_accent ''#ffffff'' = Some 0" by code_simp
  have c: "pick_accent [''#000000'', ''#ffffff''] = Some ''#ffffff''"
    by (simp add: pick_accent_def a b sort_reverse_def less_prod_def)
  from a b c show ?thesis by blast
qed

subsection \<open>k-means: shape of the result\<close>

lemma length_linspace_int: "0 < k \<Longrightarrow> length (linspace_int n k) = k"
  by (simp add: linspace_int_def)

lemma linspace_int_bound:
  assumes "0 < n" "i \<in> set (linspace_int n k)"
  shows "i < n"
proof (cases "k = 1")
  case True
  then show ?thesis using assms by (simp add: linspace_int_def)
next
  case False
  from assms(2) False obtain j where j: "j < k"
    and i: "i = (if j = k - 1 then n - 1 else nat \<lfloor>real j * (real (n - 1) / real (k - 1))\<rfloor>)"
    by (auto simp: linspace_int_def)
  show ?thesis
  proof (cases "j = k - 1")
    case True
    then show ?thesis using i assms(1) by simp
  next
    case False
    then have jk: "real j \<le> real (k - 1)" "0 < real (k - 1)" using j by auto
    have "real j * (real (n - 1) / real (k - 1)) = (real j / real (k - 1)) * real (n - 1)"
      by simp
    also have "\<dots> \<le> 1 * real (n - 1)"
      using jk by (intro mult_right_mono) (simp_all add: field_simps)
    finally have "real j * (real (n - 1) / real (k - 1)) \<le> real (n - 1)" by simp
    then have "\<lfloor>real j * (real (n - 1) / real (k - 1))\<rfloor> \<le> int (n - 1)"
      by (simp add: floor_le_iff)
    then have "nat \<lfloor>real j * (real (n - 1) / real (k - 1))\<rfloor> \<le> n - 1" by linarith
    then show ?thesis using i False assms(1) by simp
  qed
qed

lemma linspace_int_repeats:
  assumes "0 < n" "n < k"
  shows "\<not> distinct (linspace_int n k)"
proof
  assume d: "distinct (linspace_int n k)"
  have "set (linspace_int n k) \<subseteq> {..<n}" using linspace_int_bound[OF assms(1)] by auto
  then have "card (set (linspace_int n k)) \<le> card {..<n}" by (intro card_mono) simp_all
  then have "length (linspace_int n k) \<le> n" using distinct_card[OF d] by simp
  then show False using assms by (simp add: length_linspace_int)
qed

lemma length_recompute: "length (recompute pixels k centroids) = k"
  by (simp add: recompute_def Let_def)

lemma recompute_empty_cluster:
  assumes "j < k" "members pixels (assign_labels pixels centroids) j = []"
  shows "recompute pixels k centroids ! j = centroids ! j"
  using assms by (simp add: recompute_def Let_def)

lemma length_kmeans_iter:
  "length centroids = k \<Longrightarrow> length (kmeans_iter it pixels k centroids) = k"
  by (induction it arbitrary: centroids) (simp_all add: Let_def length_recompute)

lemma length_final_centroids: "0 < k \<Longrightarrow> length (final_centroids pixels k max_iter) = k"
  by (simp add: final_centroids_def length_kmeans_iter init_centroids_def length_linspace_int)

lemma cluster_counts_eq:
  "cluster_counts pixels k centroids = map (\<lambda>j. (population pixels centroids j, j)) [0..<k]"
  by (simp add: cluster_counts_def population_def Let_def)

lemma kmeans_iter_stop:
  "allclose centroids (recompute pixels k centroids) \<Longrightarrow>
     kmeans_iter (Suc it) pixels k centroids = centroids"
  by (simp add: Let_def)

lemma kmeans_iter_step:
  "\<not> allclose centroids (recompute pixels k centroids) \<Longrightarrow>
     kmeans_iter (Suc it) pixels k centroids = kmeans_iter it pixels k (recompute pixels k centroids)"
  by (simp add: Let_def)

text \<open>
  C3, as the code has it: for every non-empty pixel sample and \<open>k\<close> at least 1,
  \<open>kmeans_colors\<close> returns the final centroids, each cluster index once, ordered by
  cluster population descending; clusters of equal population come in descending order
  of their index (the tuples \<open>(count, index)\<close> are sorted in descending order); each
  centroid is converted to integers by truncation toward zero.
\<close>

theorem kmeans_colors_order:
  assumes "pixels \<noteq> []" and "1 \<le> k"
  shows "\<exists>order. kmeans_colors pixels k max_iter =
              Some (map (\<lambda>j. astype_int (final_centroids pixels (nat k) (nat max_iter) ! j)) order)
           \<and> distinct order \<and> set order = {0..<nat k}
           \<and> (\<forall>a b. a < b \<and> b < length order \<longrightarrow>
                 population pixels (final_centroids pixels (nat k) (nat max_iter)) (order ! b)
                   < population pixels (final_centroids pixels (nat k) (nat max_iter)) (order ! a)
                 \<or> population pixels (final_centroids pixels (nat k) (nat max_iter)) (order ! b)
                   = population pixels (final_centroids pixels (nat k) (nat max_iter)) (order ! a)
                   \<and> order ! b < order ! a)"
proof -
  define cs where "cs = final_centroids pixels (nat k) (nat max_iter)"
  define counts where "counts = map (\<lambda>j. (population pixels cs j, j)) [0..<nat k]"
  define sorted where "sorted = sort_reverse counts"
  define order where "order = map snd sorted"
  have res: "kmeans_colors pixels k max_iter = Some (map (\<lambda>j. astype_int (cs ! j)) order)"
    using assms
    by (simp add: kmeans_colors_def Let_def cluster_counts_eq cs_def counts_def sorted_def
        order_def comp_def)
  have snd_counts: "map snd counts = [0..<nat k]" by (simp add: counts_def comp_def)
  have dc: "distinct counts" using snd_counts by (metis distinct_map distinct_upt)
  have ds: "distinct sorted" by (simp add: sorted_def distinct_sort_reverse dc)
  have ss: "set sorted = set counts" by (simp add: sorted_def set_sort_reverse)
  have shape: "fst x = population pixels cs (snd x)" if "x \<in> set sorted" for x
    using that ss by (auto simp: counts_def)
  have inj: "inj_on snd (set sorted)"
  proof (rule inj_onI)
    fix x y assume "x \<in> set sorted" "y \<in> set sorted" "snd x = snd y"
    then show "x = y" using shape by (metis prod.expand)
  qed
  have d: "distinct order" by (simp add: order_def distinct_map ds inj)
  have s: "set order = {0..<nat k}"
  proof -
    have "set order = snd ` set counts" by (simp add: order_def ss)
    also have "\<dots> = set (map snd counts)" by simp
    finally show ?thesis by (simp add: snd_counts)
  qed
  have srt: "sorted_wrt (\<lambda>a b. b \<le> a) sorted" by (simp add: sorted_def sorted_sort_reverse)
  have ord: "population pixels cs (order ! b) < population pixels cs (order ! a)
        \<or> population pixels cs (order ! b) = population pixels cs (order ! a) \<and> order ! b < order ! a"
    if "a < b" "b < length order" for a b
  proof -
    have lb: "b < length sorted" "a < length sorted" using that by (simp_all add: order_def)
    have le: "sorted ! b \<le> sorted ! a" using srt that(1) lb(1) by (simp add: sorted_wrt_iff_nth_less)
    have ne: "sorted ! b \<noteq> sorted ! a" using ds that(1) lb by (simp add: nth_eq_iff_index_eq)
    have fa: "fst (sorted ! a) = population pixels cs (order ! a)"
      using shape[of "sorted ! a"] lb(2) by (simp add: order_def)
    have fb: "fst (sorted ! b) = population pixels cs (order ! b)"
      using shape[of "sorted ! b"] lb(1) by (simp add: order_def)
    have "fst (sorted ! b) < fst (sorted ! a)
        \<or> fst (sorted ! b) = fst (sorted ! a) \<and> snd (sorted ! b) < snd (sorted ! a)"
      using le ne by (auto simp: less_eq_prod_def prod_eq_iff)
    then show ?thesis using fa fb lb by (simp add: order_def)
  qed
  from res d s ord show ?thesis unfolding cs_def by blast
qed

theorem kmeans_colors_order_witness:
  "[(0, 0, 0), (255, 255, 255)] \<noteq> ([] :: pixel list) \<and> (1::int) \<le> 2
   \<and> (\<exists>order. kmeans_colors [(0, 0, 0), (255, 255, 255)] 2 20 =
              Some (map (\<lambda>j. astype_int (final_centroids [(0, 0, 0), (255, 255, 255)] (nat 2) (nat 20) ! j)) order)
           \<and> distinct order \<and> set order = {0..<nat 2}
           \<and> (\<forall>a b. a < b \<and> b < length order \<longrightarrow>
                 population [(0, 0, 0), (255, 255, 255)] (final_centroids [(0, 0, 0), (255, 255, 255)] (nat 2) (nat 20)) (order ! b)
                   < population [(0, 0, 0), (255, 255, 255)] (final_centroids [(0, 0, 0), (255, 255, 255)] (nat 2) (nat 20)) (order ! a)
                 \<or> population [(0, 0, 0), (255, 255, 255)] (final_centroids [(0, 0, 0), (255, 255, 255)] (nat 2) (nat 20)) (order ! b)
                   = population [(0, 0, 0), (255, 255, 255)] (final_centroids [(0, 0, 0), (255, 255, 255)] (nat 2) (nat 20)) (order ! a)
                   \<and> order ! b < order ! a))"
proof -
  have n: "[(0, 0, 0), (255, 255, 255)] \<noteq> ([] :: pixel list)" by simp
  have k: "(1::int) \<le> 2" by simp
  from kmeans_colors_order[OF n k, of 20] n k show ?thesis by blast
qed

subsection \<open>k-means on concrete samples\<close>

lemmas kmeans_eval_defs = final_centroids_def init_centroids_def linspace_int_def recompute_def
  assign_labels_def members_def mean_pixels_def sqdist_def astype_float_def astype_int_def
  allclose_def isclose_def cluster_counts_def population_def pyint_def Let_def

lemma ex1_final: "final_centroids [(0, 0, 0), (255, 255, 255)] 2 20 = [(0, 0, 0), (255, 255, 255)]"
proof -
  have i: "init_centroids [(0, 0, 0), (255, 255, 255)] 2 = [(0, 0, 0), (255, 255, 255)]"
    by (simp add: kmeans_eval_defs upt_rec)
  have r: "recompute [(0, 0, 0), (255, 255, 255)] 2 [(0, 0, 0), (255, 255, 255)]
            = [(0, 0, 0), (255, 255, 255)]"
    by (simp add: kmeans_eval_defs upt_rec)
  have "kmeans_iter (Suc 19) [(0, 0, 0), (255, 255, 255)] 2 [(0, 0, 0), (255, 255, 255)]
          = [(0, 0, 0), (255, 255, 255)]"
    by (rule kmeans_iter_stop) (simp add: r, simp add: allclose_def isclose_def)
  then show ?thesis by (simp add: final_centroids_def i)
qed

lemma ex2_final:
  "final_centroids [(0, 0, 0), (4, 4, 4), (4, 4, 4)] (Suc 0) 20 = [(8 / 3, 8 / 3, 8 / 3)]"
proof -
  let ?px = "[(0, 0, 0), (4, 4, 4), (4, 4, 4)] :: pixel list"
  have i: "init_centroids ?px (Suc 0) = [(0, 0, 0)]" by (simp add: kmeans_eval_defs)
  have r1: "recompute ?px (Suc 0) [(0, 0, 0)] = [(8 / 3, 8 / 3, 8 / 3)]"
    by (simp add: kmeans_eval_defs)
  have r2: "recompute ?px (Suc 0) [(8 / 3, 8 / 3, 8 / 3)] = [(8 / 3, 8 / 3, 8 / 3)]"
    by (simp add: kmeans_eval_defs)
  have "kmeans_iter (Suc (Suc 18)) ?px (Suc 0) [(0, 0, 0)]
          = kmeans_iter (Suc 18) ?px (Suc 0) [(8 / 3, 8 / 3, 8 / 3)]"
    unfolding r1[symmetric] by (rule kmeans_iter_step) (simp add: r1 allclose_def isclose_def)
  also have "\<dots> = [(8 / 3, 8 / 3, 8 / 3)]"
    by (rule kmeans_iter_stop) (simp add: r2, simp add: allclose_def isclose_def)
  finally show ?thesis by (simp add: final_centroids_def i)
qed

lemma ex2_result: "kmeans_colors [(0, 0, 0), (4, 4, 4), (4, 4, 4)] 1 20 = Some [(2, 2, 2)]"
proof -
  have c: "cluster_counts [(0, 0, 0), (4, 4, 4), (4, 4, 4)] (Suc 0) [(8 / 3, 8 / 3, 8 / 3)] = [(3, 0)]"
    by (simp add: kmeans_eval_defs)
  show ?thesis
    unfolding kmeans_colors_def by (simp add: ex2_final c sort_reverse_def astype_int_def pyint_def)
qed

lemma ex2_final_one:
  "final_centroids [(0, 0, 0), (4, 4, 4), (4, 4, 4)] 1 20 = [(8 / 3, 8 / 3, 8 / 3)]"
  using ex2_final by simp

lemma ex3_result: "kmeans_colors [(10, 20, 30)] 2 20 = Some [(10, 20, 30), (10, 20, 30)]"
proof -
  let ?px = "[(10, 20, 30)] :: pixel list"
  have i: "init_centroids ?px 2 = [(10, 20, 30), (10, 20, 30)]"
    by (simp add: kmeans_eval_defs upt_rec)
  have r: "recompute ?px 2 [(10, 20, 30), (10, 20, 30)] = [(10, 20, 30), (10, 20, 30)]"
    by (simp add: kmeans_eval_defs upt_rec)
  have "kmeans_iter (Suc 19) ?px 2 [(10, 20, 30), (10, 20, 30)] = [(10, 20, 30), (10, 20, 30)]"
    by (rule kmeans_iter_stop) (simp add: r, simp add: allclose_def isclose_def)
  then have f: "final_centroids ?px 2 20 = [(10, 20, 30), (10, 20, 30)]"
    by (simp add: final_centroids_def i)
  have c: "cluster_counts ?px 2 [(10, 20, 30), (10, 20, 30)] = [(1, 0), (0, 1)]"
    by (simp add: kmeans_eval_defs upt_rec)
  show ?thesis
    unfolding kmeans_colors_def by (simp add: f c sort_reverse_def astype_int_def pyint_def)
qed

text \<open>
  The claim as written fails on two clusters of one pixel each: the centroid of cluster 1
  is returned before the centroid of cluster 0. And the centroid \<open>8/3\<close> of a single
  cluster is returned as 2, where the nearest integer is 3.
\<close>

theorem kmeans_tie_index_descending:
  "final_centroids [(0, 0, 0), (255, 255, 255)] 2 20 = [(0, 0, 0), (255, 255, 255)]
   \<and> population [(0, 0, 0), (255, 255, 255)] [(0, 0, 0), (255, 255, 255)] 0 = 1
   \<and> population [(0, 0, 0), (255, 255, 255)] [(0, 0, 0), (255, 255, 255)] 1 = 1
   \<and> kmeans_colors [(0, 0, 0), (255, 255, 255)] 2 20 = Some [(255, 255, 255), (0, 0, 0)]
   \<and> final_centroids [(0, 0, 0), (4, 4, 4), (4, 4, 4)] 1 20 = [(8 / 3, 8 / 3, 8 / 3)]
   \<and> round (8 / 3 :: real) = 3
   \<and> kmeans_colors [(0, 0, 0), (4, 4, 4), (4, 4, 4)] 1 20 = Some [(2, 2, 2)]"
proof -
  have p0: "population [(0, 0, 0), (255, 255, 255)] [(0, 0, 0), (255, 255, 255)] 0 = 1"
    and p1: "population [(0, 0, 0), (255, 255, 255)] [(0, 0, 0), (255, 255, 255)] 1 = 1"
    by (simp_all add: kmeans_eval_defs)
  have c: "cluster_counts [(0, 0, 0), (255, 255, 255)] 2 [(0, 0, 0), (255, 255, 255)]
      = [(1, 0), (1, 1)]"
    unfolding cluster_counts_eq using p0 p1 by (simp add: upt_rec)
  have r: "kmeans_colors [(0, 0, 0), (255, 255, 255)] 2 20 = Some [(255, 255, 255), (0, 0, 0)]"
    unfolding kmeans_colors_def by (simp add: ex1_final c sort_reverse_def astype_int_def pyint_def)
  have rd: "round (8 / 3 :: real) = 3" by (simp add: round_def)
  from ex1_final p0 p1 r ex2_final_one rd ex2_result show ?thesis by blast
qed

text \<open>
  C10: for every non-empty pixel sample and every \<open>k\<close> at least 1, \<open>kmeans_colors\<close>
  returns exactly \<open>k\<close> colours. With fewer than \<open>k\<close> pixels the initialization
  indices repeat, and a cluster without pixels keeps its centroid in every round, so
  duplicate centroids and empty clusters can appear in the result.
\<close>

theorem kmeans_colors_length:
  assumes "pixels \<noteq> []" and "1 \<le> k"
  shows "(\<exists>cs. kmeans_colors pixels k max_iter = Some cs \<and> length cs = nat k)
         \<and> (length pixels < nat k \<longrightarrow> \<not> distinct (linspace_int (length pixels) (nat k)))
         \<and> (\<forall>j < nat k. members pixels (assign_labels pixels centroids) j = [] \<longrightarrow>
               recompute pixels (nat k) centroids ! j = centroids ! j)"
proof -
  have "kmeans_colors pixels k max_iter =
      Some (map (\<lambda>cj. astype_int (final_centroids pixels (nat k) (nat max_iter) ! snd cj))
             (sort_reverse (cluster_counts pixels (nat k)
                (final_centroids pixels (nat k) (nat max_iter)))))"
    using assms by (simp add: kmeans_colors_def Let_def)
  moreover have "length (sort_reverse (cluster_counts pixels (nat k)
                (final_centroids pixels (nat k) (nat max_iter)))) = nat k"
    by (simp add: length_sort_reverse cluster_counts_eq)
  ultimately have 1: "\<exists>cs. kmeans_colors pixels k max_iter = Some cs \<and> length cs = nat k"
    by simp
  have 2: "length pixels < nat k \<longrightarrow> \<not> distinct (linspace_int (length pixels) (nat k))"
    using assms(1) linspace_int_repeats[of "length pixels" "nat k"] by simp
  have 3: "\<forall>j < nat k. members pixels (assign_labels pixels centroids) j = [] \<longrightarrow>
               recompute pixels (nat k) centroids ! j = centroids ! j"
    using recompute_empty_cluster by blast
  from 1 2 3 show ?thesis by blast
qed

theorem kmeans_colors_length_witness:
  "[(10, 20, 30)] \<noteq> ([] :: pixel list) \<and> (1::int) \<le> 2
   \<and> kmeans_colors [(10, 20, 30)] 2 20 = Some [(10, 20, 30), (10, 20, 30)]
   \<and> length [(10, 20, 30) :: pixel, (10, 20, 30)] = nat 2
   \<and> length [(10, 20, 30) :: pixel] < nat 2
   \<and> \<not> distinct (linspace_int (length [(10, 20, 30) :: pixel]) (nat 2))
   \<and> members [(10, 20, 30)] (assign_labels [(10, 20, 30)] [(10, 20, 30), (10, 20, 30)]) 1 = []
   \<and> recompute [(10, 20, 30)] (nat 2) [(10, 20, 30), (10, 20, 30)] ! 1 = (10, 20, 30)"
proof -
  have m: "members [(10, 20, 30)] (assign_labels [(10, 20, 30)] [(10, 20, 30), (10, 20, 30)]) 1 = []"
    by (simp add: kmeans_eval_defs)
  from kmeans_colors_length[of "[(10, 20, 30)]" 2 20 "[(10, 20, 30), (10, 20, 30)]"] m ex3_result
  show ?thesis by simp
qed

end
